theory Spec2Isabelle
  imports Complex_Main
begin

section \<open>The universe server: data model\<close>

text \<open>
  The development follows the request handlers of the server module
  (\<^verbatim>\<open>main\<close> in the OpenAI-only revision of the entry point): the registry
  \<^verbatim>\<open>universes\<close>, the helpers \<^verbatim>\<open>getIndex\<close> and \<^verbatim>\<open>getVector\<close>, and the four
  routes \<^verbatim>\<open>POST /emit\<close>, \<^verbatim>\<open>POST /resonate\<close>, \<^verbatim>\<open>DELETE /thing/:universe/:id\<close> and
  \<^verbatim>\<open>DELETE /universe/:universe\<close>. Authentication, CORS, logging and the setup
  wizard do not touch the store and are left out.

  A request handler is a function from the state before the request to the
  response and the state after it. The state is what the handlers share: the
  registry object and the directories under the data root.
\<close>

type_synonym vector = "real list"

text \<open>The request item \<^verbatim>\<open>{ text: string; id?: string }\<close>.\<close>

record thing =
  thing_text :: string
  thing_id :: "string option"

text \<open>A stored record \<^verbatim>\<open>{ id, vector, metadata: { text } }\<close>.\<close>

record item =
  item_id :: string
  item_vector :: vector
  item_text :: string

text \<open>
  A directory under the data root either holds no index file or holds the
  index file with its records, in insertion order.
\<close>

datatype directory = EmptyDir | IndexDir "item list"

text \<open>
  An index object \<^verbatim>\<open>new LocalIndex(path.join(config.dataDir, universe))\<close>. The
  folder is recorded by its name under the data root; \<open>handle_id\<close> is the
  identity of the object, drawn from the allocation counter of the state.
\<close>

record LocalIndex =
  handle_id :: nat
  folderPath :: string

record state =
  universes :: "string \<rightharpoonup> LocalIndex"
  disk :: "string \<rightharpoonup> directory"
  next_handle :: nat

text \<open>
  The collaborators: the embedding call behind \<^verbatim>\<open>getVector\<close> (\<open>None\<close> when the
  call fails) and the similarity score the index ranks by.
\<close>

record env =
  embed :: "string \<Rightarrow> vector option"
  similarity :: "vector \<Rightarrow> vector \<Rightarrow> real"

datatype exn = ProviderError | TypeError | IndexError | ItemExists | ENOENT | ENOTEMPTY

text \<open>One entry of the \<^verbatim>\<open>results\<close> array of \<^verbatim>\<open>/resonate\<close>.\<close>

record match =
  closeness :: real
  match_thing :: string
  match_id :: string

datatype json = JString string | JResults "match list"

text \<open>\<^verbatim>\<open>res.status(n).json({ ... })\<close>: the status code and the fields of the body.\<close>

datatype response = Response nat "(string \<times> json) list"

definition success :: response where
  "success = Response 200 [(''status'', JString ''success'')]"

definition bad_request :: "string \<Rightarrow> response" where
  "bad_request msg = Response 400 [(''error'', JString msg)]"

definition not_found :: response where
  "not_found = Response 404 [(''error'', JString ''Universe not found.'')]"

definition internal_error :: response where
  "internal_error = Response 500 [(''error'', JString ''Internal server error'')]"

fun status :: "response \<Rightarrow> nat" where
  "status (Response n b) = n"

section \<open>The registry object\<close>

text \<open>
  \<^verbatim>\<open>const universes: { [key: string]: LocalIndex } = {}\<close> is an object literal, so
  besides the keys the server stores in it, a read \<^verbatim>\<open>universes[k]\<close> also finds
  the members every object inherits from \<^verbatim>\<open>Object.prototype\<close>. Each of the names
  below passes the universe-name pattern, and the inherited member is a
  function or an object, hence truthy and not a \<^verbatim>\<open>LocalIndex\<close>.
\<close>

definition prototype_names :: "string list" where
  "prototype_names =
     [''constructor'', ''hasOwnProperty'', ''isPrototypeOf'', ''propertyIsEnumerable'',
      ''toLocaleString'', ''toString'', ''valueOf'', ''__defineGetter__'',
      ''__defineSetter__'', ''__lookupGetter__'', ''__lookupSetter__'', ''__proto__'']"

datatype registry_value = Handle LocalIndex | Inherited

text \<open>\<^verbatim>\<open>universes[universe]\<close>: an own key wins, then the prototype, else undefined.\<close>

definition lookup :: "state \<Rightarrow> string \<Rightarrow> registry_value option" where
  "lookup s universe =
     (case universes s universe of
        Some index \<Rightarrow> Some (Handle index)
      | None \<Rightarrow> if universe \<in> set prototype_names then Some Inherited else None)"

section \<open>The vector index\<close>

text \<open>
  The index class comes from a library, so its methods are modelled from the
  contract the specification gives for the vector index; a method called on a
  value that is not an index object throws a \<^verbatim>\<open>TypeError\<close>, and a method that
  reads the records of a folder without index file throws.
\<close>

text \<open>Modelled from the spec: \<^verbatim>\<open>isIndexCreated\<close>, whether the on-disk structures of the
  namespace exist.\<close>

definition isIndexCreated :: "LocalIndex \<Rightarrow> state \<Rightarrow> bool" where
  "isIndexCreated index s =
     (case disk s (folderPath index) of Some (IndexDir items) \<Rightarrow> True | _ \<Rightarrow> False)"

text \<open>Modelled from the spec: \<^verbatim>\<open>createIndex\<close>, the creating half of \<^verbatim>\<open>ensureOpen\<close>: it
  creates the directory on demand and the on-disk structures in it, with no
  record.\<close>

definition createIndex :: "LocalIndex \<Rightarrow> state \<Rightarrow> state" where
  "createIndex index s = s\<lparr>disk := (disk s)(folderPath index \<mapsto> IndexDir [])\<rparr>"

text \<open>Modelled from the spec: \<^verbatim>\<open>listItems\<close>, all live records.\<close>

fun listItems :: "registry_value \<Rightarrow> state \<Rightarrow> exn + item list" where
  "listItems Inherited s = Inl TypeError"
| "listItems (Handle index) s =
     (case disk s (folderPath index) of
        Some (IndexDir items) \<Rightarrow> Inr items
      | _ \<Rightarrow> Inl IndexError)"

text \<open>Modelled from the spec: \<^verbatim>\<open>delete(id)\<close> removes the record if present and is a
  no-op if absent.\<close>

fun remove_id :: "string \<Rightarrow> item list \<Rightarrow> item list" where
  "remove_id i [] = []"
| "remove_id i (x # xs) = (if item_id x = i then xs else x # remove_id i xs)"

fun deleteItem :: "registry_value \<Rightarrow> string \<Rightarrow> state \<Rightarrow> exn + state" where
  "deleteItem Inherited i s = Inl TypeError"
| "deleteItem (Handle index) i s =
     (case disk s (folderPath index) of
        Some (IndexDir items) \<Rightarrow>
          Inr (s\<lparr>disk := (disk s)(folderPath index \<mapsto> IndexDir (remove_id i items))\<rparr>)
      | _ \<Rightarrow> Inl IndexError)"

text \<open>Modelled from the spec: the fresh unique identifier of an insert without id.
  The library draws it at random; the model takes a string longer than every
  live identifier, which no live record can carry.\<close>

definition fresh_id :: "string list \<Rightarrow> string" where
  "fresh_id ids = replicate (Suc (foldr (\<lambda>i n. max (length i) n) ids 0)) CHR ''0''"

text \<open>Modelled from the spec: \<^verbatim>\<open>insert(id?, vector, payload)\<close>, the library call
  \<^verbatim>\<open>insertItem\<close>: without id a fresh one is generated, and the new record is the
  most recent one. The deletion of a live record with the same id, which the
  specification describes together with insert, is the server's own code in
  \<^verbatim>\<open>insertThing\<close> below; the library call deletes nothing and refuses an id
  that is live (\<^verbatim>\<open>Item with id ... already exists\<close>).\<close>

fun insertItem :: "registry_value \<Rightarrow> string option \<Rightarrow> vector \<Rightarrow> string \<Rightarrow> state \<Rightarrow> exn + state" where
  "insertItem Inherited ido v t s = Inl TypeError"
| "insertItem (Handle index) ido v t s =
     (case disk s (folderPath index) of
        Some (IndexDir items) \<Rightarrow>
          (let i = (case ido of Some i \<Rightarrow> i | None \<Rightarrow> fresh_id (map item_id items))
           in if find (\<lambda>x. item_id x = i) items \<noteq> None then Inl ItemExists
              else Inr (s\<lparr>disk := (disk s)(folderPath index \<mapsto>
                     IndexDir (items @ [\<lparr>item_id = i, item_vector = v, item_text = t\<rparr>]))\<rparr>))
      | _ \<Rightarrow> Inl IndexError)"

text \<open>Modelled from the spec: \<^verbatim>\<open>query(vector, k)\<close>: up to \<open>k\<close> records, most similar
  first, ties in insertion order.\<close>

fun queryItems :: "env \<Rightarrow> registry_value \<Rightarrow> vector \<Rightarrow> nat \<Rightarrow> state \<Rightarrow> exn + (item \<times> real) list" where
  "queryItems E Inherited v k s = Inl TypeError"
| "queryItems E (Handle index) v k s =
     (case disk s (folderPath index) of
        Some (IndexDir items) \<Rightarrow>
          Inr (take k (sort_key (\<lambda>(x, score). - score)
                 (map (\<lambda>x. (x, similarity E v (item_vector x))) items)))
      | _ \<Rightarrow> Inl IndexError)"

text \<open>\<^verbatim>\<open>fs.rmdirSync(dir)\<close> removes an empty directory and throws on a missing or a
  non-empty one.\<close>

definition rmdirSync :: "string \<Rightarrow> state \<Rightarrow> exn + state" where
  "rmdirSync dir s =
     (case disk s dir of
        None \<Rightarrow> Inl ENOENT
      | Some (IndexDir items) \<Rightarrow> Inl ENOTEMPTY
      | Some EmptyDir \<Rightarrow> Inr (s\<lparr>disk := (disk s)(dir := None)\<rparr>))"

section \<open>Helpers of the server\<close>

text \<open>The pattern \<^verbatim>\<open>/^[a-zA-Z0-9_]+$/\<close>.\<close>

definition name_char :: "char \<Rightarrow> bool" where
  "name_char c = (c \<in> set (''abcdefghijklmnopqrstuvwxyz'' @ ''ABCDEFGHIJKLMNOPQRSTUVWXYZ''
                              @ ''0123456789'' @ ''_''))"

definition valid_universe :: "string \<Rightarrow> bool" where
  "valid_universe universe = (universe \<noteq> [] \<and> list_all name_char universe)"

text \<open>
  \<^verbatim>\<open>getIndex\<close>: the registered value if the read of the registry is truthy;
  otherwise a new index object on the universe's folder, the index created on
  disk unless it is there already, and the object registered.
\<close>

definition getIndex :: "string \<Rightarrow> state \<Rightarrow> registry_value \<times> state" where
  "getIndex universe s =
     (case lookup s universe of
        Some index \<Rightarrow> (index, s)
      | None \<Rightarrow>
          (let index = \<lparr>handle_id = next_handle s, folderPath = universe\<rparr>;
               s1 = s\<lparr>next_handle := Suc (next_handle s)\<rparr>;
               s2 = (if \<not> isIndexCreated index s1 then createIndex index s1 else s1)
           in (Handle index, s2\<lparr>universes := (universes s2)(universe \<mapsto> index)\<rparr>)))"

text \<open>\<^verbatim>\<open>getVector\<close>: the embedding of a text; a failure of the call is logged and
  rethrown.\<close>

definition getVector :: "env \<Rightarrow> string \<Rightarrow> exn + vector" where
  "getVector E t = (case embed E t of None \<Rightarrow> Inl ProviderError | Some v \<Rightarrow> Inr v)"

section \<open>POST /emit\<close>

text \<open>
  \<^verbatim>\<open>insertThing\<close>, the closure of the emit handler over the resolved index. The
  result is the exception it ends with, if any, and the state it leaves.
\<close>

definition insertThing :: "env \<Rightarrow> registry_value \<Rightarrow> thing \<Rightarrow> state \<Rightarrow> exn option \<times> state" where
  "insertThing E index t s =
     (case getVector E (thing_text t) of
        Inl e \<Rightarrow> (Some e, s)
      | Inr v \<Rightarrow>
          (let without_id =
                 (case insertItem index None v (thing_text t) s of
                    Inl e \<Rightarrow> (Some e, s)
                  | Inr s1 \<Rightarrow> (None, s1))
           in case thing_id t of
                None \<Rightarrow> without_id
              | Some i \<Rightarrow>
                  if i = [] then without_id
                  else
                    (case listItems index s of
                       Inl e \<Rightarrow> (Some e, s)
                     | Inr items \<Rightarrow>
                         (case (if find (\<lambda>x. item_id x = i) items \<noteq> None
                                then deleteItem index i s else Inr s) of
                            Inl e \<Rightarrow> (Some e, s)
                          | Inr s1 \<Rightarrow>
                              (case insertItem index (Some i) v (thing_text t) s1 of
                                 Inl e \<Rightarrow> (Some e, s1)
                               | Inr s2 \<Rightarrow> (None, s2))))))"

text \<open>
  \<^verbatim>\<open>Promise.all(things.map(insertThing))\<close> starts one task per item. A task that
  fails does not stop the others: each runs to its own end, and the combined
  promise is rejected with the first failure. The state returned is the one
  reached once all tasks have ended.

  When at most one task reaches the index (no item, one item, or a list in
  which the embedding call succeeds for one item only), the outcome does not
  depend on how the tasks interleave, and this function gives it. When several
  tasks write, the calls of the library interleave at every \<^verbatim>\<open>await\<close>, and what
  is answered and stored depends on the internals of the library, which are
  not code of the server. The function then gives the outcome of the one
  schedule in which each task ends before the next begins, in the order of the
  items; the theorems below draw from it only what does not depend on the
  order of the writes, or restrict the call to one writing task.
\<close>

fun insertThings :: "env \<Rightarrow> registry_value \<Rightarrow> thing list \<Rightarrow> state \<Rightarrow> exn option \<times> state" where
  "insertThings E index [] s = (None, s)"
| "insertThings E index (t # ts) s =
     (case insertThing E index t s of
        (r, s1) \<Rightarrow>
          (case insertThings E index ts s1 of
             (r', s2) \<Rightarrow> ((case r of Some e \<Rightarrow> Some e | None \<Rightarrow> r'), s2)))"

text \<open>
  The handler. The fields of the body are absent (\<open>None\<close>) or present. The two
  checks of the run-time shape of \<^verbatim>\<open>things\<close> and \<^verbatim>\<open>thing\<close> cannot fire on a body
  of the declared type and have no branch here.
\<close>

definition emit ::
  "env \<Rightarrow> string option \<Rightarrow> thing option \<Rightarrow> thing list option \<Rightarrow> string option \<Rightarrow> state
     \<Rightarrow> response \<times> state" where
  \<open>emit E universe thing things replace s =
     (case universe of
        None \<Rightarrow> (bad_request ''Universe is required.'', s)
      | Some u \<Rightarrow>
          if u = [] then (bad_request ''Universe is required.'', s)
          else if \<not> valid_universe u then (bad_request ''Invalid universe name.'', s)
          else if thing \<noteq> None \<and> things \<noteq> None
            then (bad_request ''You cannot provide both "thing" and "things".'', s)
          else
            (case getIndex u s of
               (index, s1) \<Rightarrow>
                 (case (case things of
                          Some ts \<Rightarrow> insertThings E index ts s1
                        | None \<Rightarrow>
                            (case thing of
                               Some t \<Rightarrow> insertThing E index t s1
                             | None \<Rightarrow> (None, s1))) of
                    (Some e, s2) \<Rightarrow> (internal_error, s2)
                  | (None, s2) \<Rightarrow>
                      (case replace of
                         None \<Rightarrow> (success, s2)
                       | Some r \<Rightarrow>
                           if r = [] then (success, s2)
                           else
                             (case deleteItem index r s2 of
                                Inl e \<Rightarrow> (internal_error, s2)
                              | Inr s3 \<Rightarrow> (success, s3))))))\<close>

section \<open>POST /resonate\<close>

definition to_match :: "item \<times> real \<Rightarrow> match" where
  "to_match x = \<lparr>closeness = snd x, match_thing = item_text (fst x), match_id = item_id (fst x)\<rparr>"

definition resonate ::
  "env \<Rightarrow> string option \<Rightarrow> string option \<Rightarrow> real option \<Rightarrow> state \<Rightarrow> response \<times> state" where
  "resonate E universe thing reach s =
     (case universe of
        None \<Rightarrow> (bad_request ''Universe is required.'', s)
      | Some u \<Rightarrow>
          if u = [] then (bad_request ''Universe is required.'', s)
          else if \<not> valid_universe u then (bad_request ''Invalid universe name.'', s)
          else if thing = None \<or> thing = Some [] then (bad_request ''Thing is required.'', s)
          else if (case reach of
                     None \<Rightarrow> False
                   | Some r \<Rightarrow> if of_int \<lfloor>r\<rfloor> = r then r < 1 else True)
            then (bad_request ''Reach must be a positive integer.'', s)
          else
            (case getIndex u s of
               (index, s1) \<Rightarrow>
                 (case getVector E (case thing of Some t \<Rightarrow> t | None \<Rightarrow> []) of
                    Inl e \<Rightarrow> (internal_error, s1)
                  | Inr v \<Rightarrow>
                      (case queryItems E index v
                              (case reach of None \<Rightarrow> 10 | Some r \<Rightarrow> nat \<lfloor>r\<rfloor>) s1 of
                         Inl e \<Rightarrow> (internal_error, s1)
                       | Inr results \<Rightarrow>
                           (Response 200 [(''status'', JString ''success''),
                                          (''results'', JResults (map to_match results))], s1)))))"

section \<open>DELETE /thing/:universe/:id\<close>

definition deleteThing :: "string \<Rightarrow> string \<Rightarrow> state \<Rightarrow> response \<times> state" where
  "deleteThing universe i s =
     (if universe = [] then (bad_request ''Universe is required.'', s)
      else if \<not> valid_universe universe then (bad_request ''Invalid universe name.'', s)
      else if i = [] then (bad_request ''ID is required.'', s)
      else
        (case getIndex universe s of
           (index, s1) \<Rightarrow>
             (case deleteItem index i s1 of
                Inl e \<Rightarrow> (internal_error, s1)
              | Inr s2 \<Rightarrow> (success, s2))))"

section \<open>DELETE /universe/:universe\<close>

text \<open>
  The inner \<^verbatim>\<open>try\<close> first removes the own key of the registry, then removes the
  directory; whatever \<^verbatim>\<open>rmdirSync\<close> throws is answered with 404.
\<close>

definition deleteUniverse :: "string \<Rightarrow> state \<Rightarrow> response \<times> state" where
  "deleteUniverse universe s =
     (if universe = [] then (bad_request ''Universe is required.'', s)
      else if \<not> valid_universe universe then (bad_request ''Invalid universe name.'', s)
      else
        (let s1 = s\<lparr>universes := (universes s)(universe := None)\<rparr>
         in case rmdirSync universe s1 of
              Inl e \<Rightarrow> (not_found, s1)
            | Inr s2 \<Rightarrow> (success, s2)))"

section \<open>Requests, states and invariants\<close>

datatype request =
    Emit "string option" "thing option" "thing list option" "string option"
  | Resonate "string option" "string option" "real option"
  | DeleteThing string string
  | DeleteUniverse string

fun serve :: "env \<Rightarrow> request \<Rightarrow> state \<Rightarrow> response \<times> state" where
  "serve E (Emit universe thing things replace) s = emit E universe thing things replace s"
| "serve E (Resonate universe thing reach) s = resonate E universe thing reach s"
| "serve E (DeleteThing universe i) s = deleteThing universe i s"
| "serve E (DeleteUniverse universe) s = deleteUniverse universe s"

text \<open>The universe a request names.\<close>

fun target :: "request \<Rightarrow> string option" where
  "target (Emit universe thing things replace) = universe"
| "target (Resonate universe thing reach) = universe"
| "target (DeleteThing universe i) = Some universe"
| "target (DeleteUniverse universe) = Some universe"

text \<open>The live records and the live identifiers of a universe.\<close>

definition records :: "state \<Rightarrow> string \<Rightarrow> item list" where
  "records s u = (case disk s u of Some (IndexDir items) \<Rightarrow> items | _ \<Rightarrow> [])"

definition listIds :: "state \<Rightarrow> string \<Rightarrow> string list" where
  "listIds s u = map item_id (records s u)"

text \<open>No two live records of one universe share an id.\<close>

definition unique_ids :: "state \<Rightarrow> bool" where
  "unique_ids s = (\<forall>u. distinct (listIds s u))"

text \<open>No live record has the empty id.\<close>

definition nonempty_ids :: "state \<Rightarrow> bool" where
  "nonempty_ids s = (\<forall>u. [] \<notin> set (listIds s u))"

text \<open>
  The registry is consistent with the disk: a registered index object sits
  under its own universe name, was allocated earlier, and its index exists on
  disk; no own key is the name of an inherited member, and no directory under
  the data root has such a name.
\<close>

definition registry_ok :: "state \<Rightarrow> bool" where
  "registry_ok s =
     ((\<forall>u index. universes s u = Some index \<longrightarrow>
          folderPath index = u \<and> handle_id index < next_handle s
          \<and> (\<exists>items. disk s u = Some (IndexDir items)))
      \<and> (\<forall>u \<in> set prototype_names. universes s u = None \<and> disk s u = None))"

definition wf_state :: "state \<Rightarrow> bool" where
  "wf_state s = (registry_ok s \<and> unique_ids s \<and> nonempty_ids s)"

text \<open>
  The shape of every write through an index object: nothing changes, or the
  records of the index the object sits on are replaced by other records, whose
  ids are distinct if those of the old ones were, and non-empty if those of
  the old ones were.
\<close>

definition index_step :: "registry_value \<Rightarrow> state \<Rightarrow> state \<Rightarrow> bool" where
  "index_step index s s' =
     (s' = s \<or>
      (\<exists>h items items'. index = Handle h \<and> disk s (folderPath h) = Some (IndexDir items)
          \<and> s' = s\<lparr>disk := (disk s)(folderPath h \<mapsto> IndexDir items')\<rparr>
          \<and> (distinct (map item_id items) \<longrightarrow> distinct (map item_id items'))
          \<and> ([] \<notin> item_id ` set items \<longrightarrow> [] \<notin> item_id ` set items')))"

text \<open>The server right after start on an empty data root.\<close>

definition initial_state :: state where
  "initial_state = \<lparr>universes = Map.empty, disk = Map.empty, next_handle = 0\<rparr>"

text \<open>
  A provider for concrete runs: it rejects the empty text and embeds any other
  text as the one-dimensional vector of its length; the score is the dot
  product.
\<close>

definition sample_env :: env where
  "sample_env = \<lparr>embed = (\<lambda>t. if t = [] then None else Some [real (length t)]),
                  similarity = (\<lambda>a b. sum_list (map2 (*) a b))\<rparr>"

text \<open>
  The server after \<^verbatim>\<open>{ universe: "u", thing: { id: "x", text: "a" } }\<close> was emitted
  on an empty data root.
\<close>

definition sample_state :: state where
  "sample_state =
     \<lparr>universes = [''u'' \<mapsto> \<lparr>handle_id = 0, folderPath = ''u''\<rparr>],
      disk = [''u'' \<mapsto> IndexDir [\<lparr>item_id = ''x'', item_vector = [1], item_text = ''a''\<rparr>]],
      next_handle = 1\<rparr>"

section \<open>Basic facts\<close>

lemmas eval_defs = emit_def resonate_def deleteThing_def deleteUniverse_def getIndex_def
  lookup_def insertThing_def getVector_def isIndexCreated_def createIndex_def rmdirSync_def
  valid_universe_def name_char_def prototype_names_def initial_state_def sample_env_def
  fresh_id_def records_def listIds_def to_match_def Let_def



lemma fresh_id_nonempty: "fresh_id ids \<noteq> []"
  by (simp add: fresh_id_def)

lemma remove_id_absent: "i \<notin> item_id ` set xs \<Longrightarrow> remove_id i xs = xs"
  by (induction xs) auto

lemma set_remove_id_subset: "set (remove_id i xs) \<subseteq> set xs"
  by (induction xs) auto

lemma ids_remove_id_subset: "item_id ` set (remove_id i xs) \<subseteq> item_id ` set xs"
  using set_remove_id_subset by blast

lemma distinct_remove_id:
  "distinct (map item_id xs) \<Longrightarrow> distinct (map item_id (remove_id i xs))"
  using ids_remove_id_subset by (induction xs) auto

lemma remove_id_removes:
  "distinct (map item_id xs) \<Longrightarrow> i \<notin> item_id ` set (remove_id i xs)"
  by (induction xs) auto

lemma remove_id_others:
  "j \<noteq> i \<Longrightarrow> filter (\<lambda>x. item_id x = j) (remove_id i xs) = filter (\<lambda>x. item_id x = j) xs"
  by (induction xs) auto

lemma length_remove_id: "i \<in> item_id ` set xs \<Longrightarrow> Suc (length (remove_id i xs)) = length xs"
  by (induction xs) auto

lemma ids_remove_id:
  "distinct (map item_id xs) \<Longrightarrow> item_id ` set (remove_id i xs) = item_id ` set xs - {i}"
  by (induction xs) (auto simp: image_iff)

lemma remove_id_idem:
  "distinct (map item_id xs) \<Longrightarrow> remove_id i (remove_id i xs) = remove_id i xs"
  by (simp add: remove_id_absent remove_id_removes)

lemma find_id_iff: "(find (\<lambda>x. item_id x = i) xs \<noteq> None) = (i \<in> item_id ` set xs)"
  by (induction xs) auto

lemma find_id_None: "(find (\<lambda>x. item_id x = i) xs = None) = (i \<notin> item_id ` set xs)"
  by (induction xs) auto

subsection \<open>Writes through an index object\<close>

lemma index_step_refl: "index_step index s s"
  by (simp add: index_step_def)

lemma nonempty_remove_id:
  "[] \<notin> item_id ` set items \<Longrightarrow> [] \<notin> item_id ` set (remove_id i items)"
  using ids_remove_id_subset[of i items] by auto

lemma deleteItem_step:
  assumes "deleteItem index i s = Inr s'"
  shows "index_step index s s'"
proof (cases index)
  case Inherited
  then show ?thesis using assms by simp
next
  case (Handle h)
  then obtain items where d: "disk s (folderPath h) = Some (IndexDir items)"
    using assms by (auto split: option.splits directory.splits)
  have s': "s' = s\<lparr>disk := (disk s)(folderPath h \<mapsto> IndexDir (remove_id i items))\<rparr>"
    using assms Handle d by simp
  show ?thesis
    unfolding index_step_def
    using Handle d s' distinct_remove_id[of items i] nonempty_remove_id[of items i]
    by blast
qed

lemma insertItem_Inr:
  assumes "insertItem index ido v t s = Inr s'"
  obtains h items i where "index = Handle h" and "disk s (folderPath h) = Some (IndexDir items)"
    and "i = (case ido of Some i \<Rightarrow> i | None \<Rightarrow> fresh_id (map item_id items))"
    and "i \<notin> item_id ` set items"
    and "s' = s\<lparr>disk := (disk s)(folderPath h \<mapsto>
                 IndexDir (items @ [\<lparr>item_id = i, item_vector = v, item_text = t\<rparr>]))\<rparr>"
proof (cases index)
  case Inherited
  then show ?thesis using assms by simp
next
  case (Handle h)
  then obtain items where d: "disk s (folderPath h) = Some (IndexDir items)"
    using assms by (auto split: option.splits directory.splits)
  define i where "i = (case ido of Some i \<Rightarrow> i | None \<Rightarrow> fresh_id (map item_id items))"
  have f: "find (\<lambda>x. item_id x = i) items = None"
    using assms Handle d by (auto simp: i_def Let_def split: if_splits)
  then have "s' = s\<lparr>disk := (disk s)(folderPath h \<mapsto>
                 IndexDir (items @ [\<lparr>item_id = i, item_vector = v, item_text = t\<rparr>]))\<rparr>"
    using assms Handle d by (simp add: i_def Let_def)
  then show ?thesis
    using that[OF Handle d i_def] f by (simp add: find_id_None)
qed

lemma insertItem_step:
  assumes "insertItem index ido v t s = Inr s'" and "ido \<noteq> Some []"
  shows "index_step index s s'"
proof -
  obtain h items i where h: "index = Handle h" and d: "disk s (folderPath h) = Some (IndexDir items)"
    and i: "i = (case ido of Some i \<Rightarrow> i | None \<Rightarrow> fresh_id (map item_id items))"
    and n: "i \<notin> item_id ` set items"
    and s': "s' = s\<lparr>disk := (disk s)(folderPath h \<mapsto>
                 IndexDir (items @ [\<lparr>item_id = i, item_vector = v, item_text = t\<rparr>]))\<rparr>"
    using insertItem_Inr[OF assms(1)] by blast
  have ne: "i \<noteq> []"
    using assms(2) by (cases ido) (simp_all add: i fresh_id_nonempty)
  have "distinct (map item_id items) \<longrightarrow>
        distinct (map item_id (items @ [\<lparr>item_id = i, item_vector = v, item_text = t\<rparr>]))"
    using n by simp
  moreover have "[] \<notin> item_id ` set items \<longrightarrow>
        [] \<notin> item_id ` set (items @ [\<lparr>item_id = i, item_vector = v, item_text = t\<rparr>])"
    using ne by auto
  ultimately show ?thesis
    unfolding index_step_def using h d s' by blast
qed

lemma index_step_trans:
  assumes "index_step index s s1" and "index_step index s1 s2"
  shows "index_step index s s2"
  using assms unfolding index_step_def by (elim disjE exE conjE) (auto)


lemma insertThing_step: "index_step index s (snd (insertThing E index t s))"
proof (cases "getVector E (thing_text t)")
  case (Inl e)
  then show ?thesis by (simp add: insertThing_def index_step_refl)
next
  case (Inr v)
  have a: "index_step index s
      (snd (case insertItem index None v (thing_text t) s of
              Inl e \<Rightarrow> (Some e, s) | Inr s1 \<Rightarrow> (None, s1)))"
    by (auto simp: index_step_refl insertItem_step split: sum.splits)
  show ?thesis
  proof (cases "\<exists>i. thing_id t = Some i \<and> i \<noteq> []")
    case False
    then show ?thesis
      using Inr a by (auto simp: insertThing_def Let_def split: option.splits)
  next
    case True
    then obtain i where i: "thing_id t = Some i" "i \<noteq> []" by blast
    have b: "index_step index s
        (snd (case insertItem index (Some i) v (thing_text t) s1 of
                Inl e \<Rightarrow> (Some e, s1) | Inr s2 \<Rightarrow> (None, s2)))"
      if "index_step index s s1" for s1
      using that i(2) by (auto split: sum.splits intro: index_step_trans insertItem_step)
    show ?thesis
      using Inr i b[OF index_step_refl] b[OF deleteItem_step]
      by (auto simp: insertThing_def Let_def index_step_refl split: sum.splits)
  qed
qed

lemma insertThings_step: "index_step index s (snd (insertThings E index ts s))"
proof (induction ts arbitrary: s)
  case Nil
  show ?case by (simp add: index_step_refl)
next
  case (Cons t ts)
  have "index_step index s (snd (insertThing E index t s))"
    by (rule insertThing_step)
  moreover have "index_step index (snd (insertThing E index t s))
      (snd (insertThings E index ts (snd (insertThing E index t s))))"
    by (rule Cons.IH)
  ultimately show ?case
    by (auto simp: split_beta intro: index_step_trans)
qed

lemma index_step_universes: "index_step index s s' \<Longrightarrow> universes s' = universes s"
  by (auto simp: index_step_def)

lemma index_step_next_handle: "index_step index s s' \<Longrightarrow> next_handle s' = next_handle s"
  by (auto simp: index_step_def)

lemma index_step_disk_other:
  "index_step (Handle h) s s' \<Longrightarrow> v \<noteq> folderPath h \<Longrightarrow> disk s' v = disk s v"
  by (auto simp: index_step_def)

lemma index_step_Inherited: "index_step Inherited s s' \<Longrightarrow> s' = s"
  by (auto simp: index_step_def)

lemma index_step_created:
  "index_step index s s' \<Longrightarrow>
   (\<exists>items. disk s' v = Some (IndexDir items)) = (\<exists>items. disk s v = Some (IndexDir items))"
  by (auto simp: index_step_def split: if_splits)

lemma index_step_None: "index_step index s s' \<Longrightarrow> (disk s' v = None) = (disk s v = None)"
  by (auto simp: index_step_def split: if_splits)

lemma index_step_unique_ids:
  assumes "index_step index s s'" and "unique_ids s"
  shows "unique_ids s'"
proof -
  have "distinct (listIds s' u)" for u
    using assms(1) unfolding index_step_def
  proof (elim disjE exE conjE)
    assume "s' = s"
    then show ?thesis using assms(2) by (simp add: unique_ids_def)
  next
    fix h :: LocalIndex and items items'
    assume d: "disk s (folderPath h) = Some (IndexDir items)"
      and s': "s' = s\<lparr>disk := (disk s)(folderPath h \<mapsto> IndexDir items')\<rparr>"
      and imp: "distinct (map item_id items) \<longrightarrow> distinct (map item_id items')"
    have "distinct (listIds s (folderPath h))" and other: "distinct (listIds s u)"
      using assms(2) by (simp_all add: unique_ids_def)
    then have "distinct (map item_id items')"
      using d imp by (simp add: listIds_def records_def)
    then show ?thesis
      using other s' by (cases "u = folderPath h") (simp_all add: listIds_def records_def)
  qed
  then show ?thesis by (simp add: unique_ids_def)
qed

lemma index_step_nonempty_ids:
  assumes "index_step index s s'" and "nonempty_ids s"
  shows "nonempty_ids s'"
proof -
  have "[] \<notin> set (listIds s' u)" for u
    using assms(1) unfolding index_step_def
  proof (elim disjE exE conjE)
    assume "s' = s"
    then show ?thesis using assms(2) by (simp add: nonempty_ids_def)
  next
    fix h :: LocalIndex and items items'
    assume d: "disk s (folderPath h) = Some (IndexDir items)"
      and s': "s' = s\<lparr>disk := (disk s)(folderPath h \<mapsto> IndexDir items')\<rparr>"
      and imp: "[] \<notin> item_id ` set items \<longrightarrow> [] \<notin> item_id ` set items'"
    have "[] \<notin> set (listIds s (folderPath h))" and other: "[] \<notin> set (listIds s u)"
      using assms(2) by (simp_all add: nonempty_ids_def)
    then have "[] \<notin> item_id ` set items'"
      using d imp by (simp add: listIds_def records_def)
    then show ?thesis
      using other s' by (cases "u = folderPath h") (simp_all add: listIds_def records_def)
  qed
  then show ?thesis by (simp add: nonempty_ids_def)
qed

lemma index_step_registry_ok:
  assumes "index_step index s s'" and "registry_ok s"
  shows "registry_ok s'"
  using assms(2) index_step_created[OF assms(1)] index_step_None[OF assms(1)]
  unfolding registry_ok_def index_step_universes[OF assms(1)] index_step_next_handle[OF assms(1)]
  by simp

lemma index_step_wf: "index_step index s s' \<Longrightarrow> wf_state s \<Longrightarrow> wf_state s'"
  by (simp add: wf_state_def index_step_registry_ok index_step_unique_ids index_step_nonempty_ids)

subsection \<open>Resolving an index\<close>

lemma getIndex_cached: "lookup s u = Some index \<Longrightarrow> getIndex u s = (index, s)"
  by (simp add: getIndex_def)

lemma getIndex_new:
  "lookup s u = None \<Longrightarrow>
   getIndex u s =
     (Handle \<lparr>handle_id = next_handle s, folderPath = u\<rparr>,
      s\<lparr>next_handle := Suc (next_handle s),
        disk := (case disk s u of Some (IndexDir items) \<Rightarrow> disk s | _ \<Rightarrow> (disk s)(u \<mapsto> IndexDir [])),
        universes := (universes s)(u \<mapsto> \<lparr>handle_id = next_handle s, folderPath = u\<rparr>)\<rparr>)"
  by (auto simp: getIndex_def Let_def isIndexCreated_def createIndex_def split: option.splits directory.splits)

lemma lookup_cases:
  "(lookup s u = None \<and> universes s u = None \<and> u \<notin> set prototype_names)
   \<or> (\<exists>h. lookup s u = Some (Handle h) \<and> universes s u = Some h)
   \<or> (lookup s u = Some Inherited \<and> universes s u = None \<and> u \<in> set prototype_names)"
  by (auto simp: lookup_def split: option.splits)

lemma getIndex_other:
  "v \<noteq> u \<Longrightarrow> disk (snd (getIndex u s)) v = disk s v \<and> universes (snd (getIndex u s)) v = universes s v"
  using lookup_cases[of s u]
  by (auto simp: getIndex_cached getIndex_new split: option.splits directory.splits)

lemma getIndex_records: "records (snd (getIndex u s)) v = records s v"
  using lookup_cases[of s u]
  by (auto simp: getIndex_cached getIndex_new records_def split: option.splits directory.splits if_splits)

lemma getIndex_unique_ids: "unique_ids (snd (getIndex u s)) = unique_ids s"
  by (simp add: unique_ids_def listIds_def getIndex_records)

lemma getIndex_nonempty_ids: "nonempty_ids (snd (getIndex u s)) = nonempty_ids s"
  by (simp add: nonempty_ids_def listIds_def getIndex_records)

lemma getIndex_registry_ok: "registry_ok s \<Longrightarrow> registry_ok (snd (getIndex u s))"
  using lookup_cases[of s u]
  apply (elim disjE exE conjE)
    apply (simp_all add: getIndex_cached getIndex_new)
  apply (auto simp: registry_ok_def less_Suc_eq split: option.splits directory.splits)
  done

lemma getIndex_wf: "wf_state s \<Longrightarrow> wf_state (snd (getIndex u s))"
  by (simp add: wf_state_def getIndex_registry_ok getIndex_unique_ids getIndex_nonempty_ids)

text \<open>What getIndex returns in a consistent state.\<close>

lemma getIndex_Handle:
  assumes "registry_ok s" and "u \<notin> set prototype_names"
  shows "\<exists>h items. fst (getIndex u s) = Handle h \<and> folderPath h = u
           \<and> universes (snd (getIndex u s)) u = Some h
           \<and> disk (snd (getIndex u s)) u = Some (IndexDir items)"
  using lookup_cases[of s u] assms
  apply (elim disjE exE conjE)
    apply (simp_all add: getIndex_cached getIndex_new)
   apply (auto simp: registry_ok_def split: option.splits directory.splits)
  done

lemma getIndex_Inherited:
  assumes "registry_ok s" and "u \<in> set prototype_names"
  shows "getIndex u s = (Inherited, s)"
  using lookup_cases[of s u] assms
  by (auto simp: getIndex_cached registry_ok_def)

subsection \<open>The state a handler leaves\<close>

lemma emit_rejected:
  "status (fst (emit E uo thing things replace s)) = 400 \<Longrightarrow> snd (emit E uo thing things replace s) = s"
  by (auto simp: emit_def bad_request_def success_def internal_error_def
        split: option.splits prod.splits sum.splits if_splits)

lemma emit_accepted:
  assumes "u \<noteq> []" and "valid_universe u" and "\<not> (thing \<noteq> None \<and> things \<noteq> None)"
    and "getIndex u s = (index, s1)"
    and "(case things of
            Some ts \<Rightarrow> insertThings E index ts s1
          | None \<Rightarrow> (case thing of Some t \<Rightarrow> insertThing E index t s1 | None \<Rightarrow> (None, s1)))
         = (r, s2)"
  shows "emit E (Some u) thing things replace s =
           (case r of
              Some e \<Rightarrow> (internal_error, s2)
            | None \<Rightarrow>
                (case replace of
                   None \<Rightarrow> (success, s2)
                 | Some x \<Rightarrow>
                     if x = [] then (success, s2)
                     else (case deleteItem index x s2 of
                             Inl e \<Rightarrow> (internal_error, s2)
                           | Inr s3 \<Rightarrow> (success, s3))))"
  using assms by (simp add: emit_def split: option.splits)

lemma inserts_step:
  "index_step index s1
     (snd (case things of
             Some ts \<Rightarrow> insertThings E index ts s1
           | None \<Rightarrow> (case thing of Some t \<Rightarrow> insertThing E index t s1 | None \<Rightarrow> (None, s1))))"
  by (simp add: insertThings_step insertThing_step index_step_refl split: option.splits)

lemma emit_step:
  "snd (emit E uo thing things replace s) = s
   \<or> (\<exists>u. uo = Some u \<and> valid_universe u
          \<and> index_step (fst (getIndex u s)) (snd (getIndex u s))
               (snd (emit E uo thing things replace s)))"
proof (cases "\<exists>u. uo = Some u \<and> u \<noteq> [] \<and> valid_universe u \<and> \<not> (thing \<noteq> None \<and> things \<noteq> None)")
  case False
  then have "snd (emit E uo thing things replace s) = s"
    by (auto simp: emit_def split: option.splits)
  then show ?thesis ..
next
  case True
  then obtain u where u: "uo = Some u" "u \<noteq> []" "valid_universe u"
      "\<not> (thing \<noteq> None \<and> things \<noteq> None)"
    by blast
  obtain index s1 where g: "getIndex u s = (index, s1)"
    by (cases "getIndex u s")
  obtain r s2 where i: "(case things of
            Some ts \<Rightarrow> insertThings E index ts s1
          | None \<Rightarrow> (case thing of Some t \<Rightarrow> insertThing E index t s1 | None \<Rightarrow> (None, s1)))
         = (r, s2)"
    by (cases "(case things of
            Some ts \<Rightarrow> insertThings E index ts s1
          | None \<Rightarrow> (case thing of Some t \<Rightarrow> insertThing E index t s1 | None \<Rightarrow> (None, s1)))")
  have st: "index_step index s1 s2"
    using inserts_step[where index=index and ?s1.0=s1 and things=things and E=E and thing=thing] i by simp
  have "index_step index s1 (snd (emit E (Some u) thing things replace s))"
    unfolding emit_accepted[OF u(2,3,4) g i]
    using st by (auto split: option.splits sum.splits dest: deleteItem_step intro: index_step_trans)
  then show ?thesis
    using u g by auto
qed

lemma resonate_step:
  "snd (resonate E uo thing reach s) = s
   \<or> (\<exists>u. uo = Some u \<and> valid_universe u \<and> snd (resonate E uo thing reach s) = snd (getIndex u s))"
  by (auto simp: resonate_def split: option.splits prod.splits sum.splits)

lemma deleteThing_step:
  "snd (deleteThing u i s) = s
   \<or> (valid_universe u \<and> index_step (fst (getIndex u s)) (snd (getIndex u s)) (snd (deleteThing u i s)))"
  by (auto simp: deleteThing_def index_step_refl split: prod.splits sum.splits dest: deleteItem_step)

lemma deleteUniverse_step:
  "snd (deleteUniverse u s) = s
   \<or> (valid_universe u \<and>
       (snd (deleteUniverse u s) = s\<lparr>universes := (universes s)(u := None)\<rparr>
        \<or> (disk s u = Some EmptyDir \<and>
            snd (deleteUniverse u s) = s\<lparr>universes := (universes s)(u := None), disk := (disk s)(u := None)\<rparr>)))"
  by (auto simp: deleteUniverse_def rmdirSync_def Let_def split: option.splits directory.splits)

subsection \<open>Invariants and frame of a request\<close>

lemma getIndex_folderPath:
  assumes "registry_ok s" and "fst (getIndex u s) = Handle h"
  shows "folderPath h = u"
proof (cases "u \<in> set prototype_names")
  case True
  then show ?thesis using getIndex_Inherited[OF assms(1)] assms(2) by simp
next
  case False
  then show ?thesis using getIndex_Handle[OF assms(1) False] assms(2) by auto
qed

lemma resolved_step_other:
  assumes "registry_ok s" and "index_step (fst (getIndex u s)) (snd (getIndex u s)) s'" and "v \<noteq> u"
  shows "disk s' v = disk s v \<and> universes s' v = universes s v"
proof (cases "fst (getIndex u s)")
  case (Handle h)
  then have "folderPath h = u" using getIndex_folderPath[OF assms(1)] by simp
  then have "disk s' v = disk (snd (getIndex u s)) v"
    using index_step_disk_other[of h "snd (getIndex u s)" s' v] assms(2,3) Handle by simp
  then show ?thesis
    using index_step_universes[OF assms(2)] getIndex_other[OF assms(3)] by simp
next
  case Inherited
  then have "s' = snd (getIndex u s)" using assms(2) index_step_Inherited by simp
  then show ?thesis using getIndex_other[OF assms(3)] by simp
qed

lemma resolved_step_wf:
  assumes "wf_state s" and "index_step (fst (getIndex u s)) (snd (getIndex u s)) s'"
  shows "wf_state s'"
  using index_step_wf[OF assms(2)] getIndex_wf[OF assms(1)] by simp

lemma resolved_step_unique_ids:
  assumes "unique_ids s" and "index_step (fst (getIndex u s)) (snd (getIndex u s)) s'"
  shows "unique_ids s'"
  using index_step_unique_ids[OF assms(2)] assms(1) by (simp add: getIndex_unique_ids)

lemma evict_registry_ok: "registry_ok s \<Longrightarrow> registry_ok (s\<lparr>universes := (universes s)(u := None)\<rparr>)"
  by (auto simp: registry_ok_def)

lemma rmdir_registry_ok:
  "registry_ok s \<Longrightarrow> registry_ok (s\<lparr>universes := (universes s)(u := None), disk := (disk s)(u := None)\<rparr>)"
  by (auto simp: registry_ok_def)

lemma evict_unique_ids: "unique_ids (s\<lparr>universes := m\<rparr>) = unique_ids s"
  by (simp add: unique_ids_def listIds_def records_def)

lemma rmdir_unique_ids:
  "unique_ids s \<Longrightarrow> unique_ids (s\<lparr>universes := m, disk := (disk s)(u := None)\<rparr>)"
  by (auto simp: unique_ids_def listIds_def records_def)

lemma evict_nonempty_ids: "nonempty_ids (s\<lparr>universes := m\<rparr>) = nonempty_ids s"
  by (simp add: nonempty_ids_def listIds_def records_def)

lemma rmdir_nonempty_ids:
  "nonempty_ids s \<Longrightarrow> nonempty_ids (s\<lparr>universes := m, disk := (disk s)(u := None)\<rparr>)"
  by (auto simp: nonempty_ids_def listIds_def records_def)

lemma deleteUniverse_wf: "wf_state s \<Longrightarrow> wf_state (snd (deleteUniverse u s))"
  using deleteUniverse_step[of u s]
  by (auto simp: wf_state_def evict_registry_ok rmdir_registry_ok evict_unique_ids rmdir_unique_ids
        evict_nonempty_ids rmdir_nonempty_ids)

lemma deleteUniverse_unique_ids: "unique_ids s \<Longrightarrow> unique_ids (snd (deleteUniverse u s))"
  using deleteUniverse_step[of u s]
  by (auto simp: evict_unique_ids rmdir_unique_ids)

lemma serve_wf: "wf_state s \<Longrightarrow> wf_state (snd (serve E r s))"
proof (cases r)
  case (Emit uo thing things replace)
  then show "wf_state s \<Longrightarrow> ?thesis"
    using emit_step[of E uo thing things replace s] by (auto intro: resolved_step_wf)
next
  case (Resonate uo thing reach)
  then show "wf_state s \<Longrightarrow> ?thesis"
    using resonate_step[of E uo thing reach s] by (auto intro: getIndex_wf)
next
  case (DeleteThing u i)
  then show "wf_state s \<Longrightarrow> ?thesis"
    using deleteThing_step[of u i s] by (auto intro: resolved_step_wf)
next
  case (DeleteUniverse u)
  then show "wf_state s \<Longrightarrow> ?thesis"
    by (simp add: deleteUniverse_wf)
qed

lemma serve_unique_ids: "unique_ids s \<Longrightarrow> unique_ids (snd (serve E r s))"
proof (cases r)
  case (Emit uo thing things replace)
  then show "unique_ids s \<Longrightarrow> ?thesis"
    using emit_step[of E uo thing things replace s] by (auto intro: resolved_step_unique_ids)
next
  case (Resonate uo thing reach)
  then show "unique_ids s \<Longrightarrow> ?thesis"
    using resonate_step[of E uo thing reach s] by (auto simp: getIndex_unique_ids)
next
  case (DeleteThing u i)
  then show "unique_ids s \<Longrightarrow> ?thesis"
    using deleteThing_step[of u i s] by (auto intro: resolved_step_unique_ids)
next
  case (DeleteUniverse u)
  then show "unique_ids s \<Longrightarrow> ?thesis"
    by (simp add: deleteUniverse_unique_ids)
qed

lemma serve_other:
  assumes "registry_ok s" and "target r \<noteq> Some v"
  shows "disk (snd (serve E r s)) v = disk s v \<and> universes (snd (serve E r s)) v = universes s v"
proof (cases r)
  case (Emit uo thing things replace)
  then show ?thesis
    using emit_step[of E uo thing things replace s] assms resolved_step_other[OF assms(1)]
    by (cases uo) auto
next
  case (Resonate uo thing reach)
  then show ?thesis
    using resonate_step[of E uo thing reach s] assms getIndex_other
    by (cases uo) auto
next
  case (DeleteThing u i)
  then show ?thesis
    using deleteThing_step[of u i s] assms resolved_step_other[OF assms(1)]
    by auto
next
  case (DeleteUniverse u)
  then show ?thesis
    using deleteUniverse_step[of u s] assms by auto
qed

section \<open>Deleting a universe\<close>

text \<open>
  C1. Claimed: deleteUniverse on a universe that has been created removes all
  of its persisted state and its cached handle and reports success, fails with
  not-found exactly when the directory does not exist, and a later resonate
  finds nothing of what was emitted before. The handler does otherwise: the
  directory of a created universe holds the index file, \<^verbatim>\<open>rmdirSync\<close> refuses a
  directory that is not empty, and the handler answers 404. After one emit of
  the text \<open>a\<close> into the new universe \<open>u\<close>, deleteUniverse reports not-found,
  the record is still on disk, only the handle is gone, and resonate on a fresh
  handle returns the record.
\<close>

theorem deleteUniverse_keeps_created_universe:
  "fst (emit sample_env (Some ''u'') (Some \<lparr>thing_text = ''a'', thing_id = None\<rparr>) None None
          initial_state) = success
   \<and> (let s1 = snd (emit sample_env (Some ''u'') (Some \<lparr>thing_text = ''a'', thing_id = None\<rparr>)
                       None None initial_state);
           s2 = snd (deleteUniverse ''u'' s1)
       in universes s1 ''u'' = Some \<lparr>handle_id = 0, folderPath = ''u''\<rparr>
          \<and> fst (deleteUniverse ''u'' s1) = not_found
          \<and> universes s2 ''u'' = None
          \<and> records s2 ''u'' = [\<lparr>item_id = ''0'', item_vector = [1], item_text = ''a''\<rparr>]
          \<and> fst (resonate sample_env (Some ''u'') (Some ''a'') None s2)
              = Response 200 [(''status'', JString ''success''),
                  (''results'', JResults [\<lparr>closeness = 1, match_thing = ''a'', match_id = ''0''\<rparr>])])"
  by (simp add: eval_defs)

section \<open>Sample states\<close>

lemma wf_initial_state: "wf_state initial_state"
  by (simp add: wf_state_def registry_ok_def unique_ids_def nonempty_ids_def listIds_def records_def
        initial_state_def)

lemma wf_sample_state: "wf_state sample_state"
  by (auto simp: wf_state_def registry_ok_def unique_ids_def nonempty_ids_def listIds_def records_def
        sample_state_def prototype_names_def)

lemma sample_state_reached:
  "snd (emit sample_env (Some ''u'') (Some \<lparr>thing_text = ''a'', thing_id = Some ''x''\<rparr>) None None
          initial_state) = sample_state"
  by (simp add: eval_defs sample_state_def)

section \<open>Isolation of universes\<close>

text \<open>
  C9. For every operation (emit, resonate, deleteThing, deleteUniverse)
  targeting a universe, the stored records and the cached handle of every other
  universe \<open>v\<close> are unchanged by the operation. The state before the request is
  any consistent state; a request that names no universe changes nothing
  either.
\<close>

theorem other_universes_unchanged:
  assumes "wf_state s" and "target r \<noteq> Some v"
  shows "universes (snd (serve E r s)) v = universes s v
         \<and> disk (snd (serve E r s)) v = disk s v
         \<and> records (snd (serve E r s)) v = records s v"
  using serve_other[of s r v E] assms by (simp add: wf_state_def records_def)

text \<open>
  An emit into the new universe \<open>w\<close>, with the id and the replace id \<open>x\<close> that
  universe \<open>u\<close> also uses, leaves the record and the handle of \<open>u\<close> alone.
\<close>

theorem other_universes_unchanged_witness:
  "wf_state sample_state
   \<and> target (Emit (Some ''w'') (Some \<lparr>thing_text = ''b'', thing_id = Some ''x''\<rparr>) None (Some ''x''))
       \<noteq> Some ''u''
   \<and> universes (snd (serve sample_env
        (Emit (Some ''w'') (Some \<lparr>thing_text = ''b'', thing_id = Some ''x''\<rparr>) None (Some ''x''))
        sample_state)) ''u'' = Some \<lparr>handle_id = 0, folderPath = ''u''\<rparr>
   \<and> records (snd (serve sample_env
        (Emit (Some ''w'') (Some \<lparr>thing_text = ''b'', thing_id = Some ''x''\<rparr>) None (Some ''x''))
        sample_state)) ''u'' = [\<lparr>item_id = ''x'', item_vector = [1], item_text = ''a''\<rparr>]"
proof -
  have h1: "wf_state sample_state" by (rule wf_sample_state)
  have h2: "target (Emit (Some ''w'') (Some \<lparr>thing_text = ''b'', thing_id = Some ''x''\<rparr>) None (Some ''x''))
              \<noteq> Some ''u''"
    by simp
  have r: "records sample_state ''u'' = [\<lparr>item_id = ''x'', item_vector = [1], item_text = ''a''\<rparr>]"
    "universes sample_state ''u'' = Some \<lparr>handle_id = 0, folderPath = ''u''\<rparr>"
    by (simp_all add: sample_state_def records_def)
  show ?thesis
    using other_universes_unchanged[OF h1 h2, of sample_env] h1 h2 r by simp
qed

section \<open>Emitting one item\<close>

lemma insertThing_with_id:
  assumes "disk s (folderPath h) = Some (IndexDir items)" and "embed E (thing_text t) = Some v"
    and "thing_id t = Some x" and "x \<noteq> []" and "distinct (map item_id items)"
  shows "insertThing E (Handle h) t s =
           (None, s\<lparr>disk := (disk s)(folderPath h \<mapsto>
              IndexDir (remove_id x items
                          @ [\<lparr>item_id = x, item_vector = v, item_text = thing_text t\<rparr>]))\<rparr>)"
proof (cases "x \<in> item_id ` set items")
  case True
  then show ?thesis
    using assms remove_id_removes[OF assms(5), of x]
    by (simp add: insertThing_def getVector_def find_id_None)
next
  case False
  then show ?thesis
    using assms by (simp add: insertThing_def getVector_def find_id_None remove_id_absent)
qed

text \<open>Without the deletion the server does first, the library refuses the live id.\<close>

lemma insertItem_live_id:
  assumes "disk s (folderPath h) = Some (IndexDir items)" and "x \<in> item_id ` set items"
  shows "insertItem (Handle h) (Some x) v t s = Inl ItemExists"
  using assms by (simp add: find_id_None)



lemma records_live:
  "x \<in> set (listIds s u) \<Longrightarrow> disk s u = Some (IndexDir (records s u))"
  by (cases "disk s u"; cases "the (disk s u)") (simp_all add: listIds_def records_def)

lemma live_not_inherited:
  assumes "registry_ok s" and "x \<in> set (listIds s u)"
  shows "u \<notin> set prototype_names"
  using assms records_live[OF assms(2)] by (auto simp: registry_ok_def)

text \<open>getIndex in a consistent state, on a name that is not inherited.\<close>

lemma getIndex_resolved:
  assumes "registry_ok s" and "u \<notin> set prototype_names"
  obtains h s1 where "getIndex u s = (Handle h, s1)" and "folderPath h = u"
    and "universes s1 u = Some h" and "disk s1 u = Some (IndexDir (records s u))"
    and "registry_ok s1"
proof -
  obtain h items where h: "fst (getIndex u s) = Handle h" "folderPath h = u"
      "universes (snd (getIndex u s)) u = Some h"
      "disk (snd (getIndex u s)) u = Some (IndexDir items)"
    using getIndex_Handle[OF assms] by blast
  have "records (snd (getIndex u s)) u = records s u"
    by (rule getIndex_records)
  then have "items = records s u"
    using h(4) by (simp add: records_def)
  then show ?thesis
    using that[of h "snd (getIndex u s)"] h getIndex_registry_ok[OF assms(1)] by (simp add: prod_eq_iff)
qed

lemma insertThings_single: "insertThings E index [t] s = insertThing E index t s"
  by (simp add: split_beta prod_eq_iff split: option.splits)

lemma emit_singleton:
  "emit E uo None (Some [t]) replace s = emit E uo (Some t) None replace s"
  by (simp add: emit_def insertThings_single del: insertThings.simps
        split: option.splits prod.splits)

lemma upsert_replace:
  assumes wf: "wf_state s" and u: "valid_universe u"
    and live: "x \<in> set (listIds s u)" and v: "embed E b = Some v"
    and rp: "case replace of None \<Rightarrow> True | Some y \<Rightarrow> y \<notin> set (listIds s u)"
  shows "fst (emit E (Some u) (Some \<lparr>thing_text = b, thing_id = Some x\<rparr>) None replace s) = success
    \<and> records (snd (emit E (Some u) (Some \<lparr>thing_text = b, thing_id = Some x\<rparr>) None replace s)) u
        = remove_id x (records s u) @ [\<lparr>item_id = x, item_vector = v, item_text = b\<rparr>]"
proof -
  let ?new = "\<lparr>item_id = x, item_vector = v, item_text = b\<rparr>"
  let ?t = "\<lparr>thing_text = b, thing_id = Some x\<rparr>"
  have ok: "registry_ok s" and uniq: "distinct (map item_id (records s u))"
    using wf by (simp_all add: wf_state_def unique_ids_def listIds_def)
  have x: "x \<noteq> []"
    using wf live by (auto simp: wf_state_def nonempty_ids_def)
  have ne: "u \<noteq> []" using u by (simp add: valid_universe_def)
  obtain h s1 where g: "getIndex u s = (Handle h, s1)" and p: "folderPath h = u"
    and d: "disk s1 u = Some (IndexDir (records s u))"
    using getIndex_resolved[OF ok live_not_inherited[OF ok live]] by metis
  define s2 where "s2 = s1\<lparr>disk := (disk s1)(u \<mapsto> IndexDir (remove_id x (records s u) @ [?new]))\<rparr>"
  have i: "(case None of
            Some ts \<Rightarrow> insertThings E (Handle h) ts s1
          | None \<Rightarrow> (case Some ?t of Some t \<Rightarrow> insertThing E (Handle h) t s1 | None \<Rightarrow> (None, s1)))
         = (None, s2)"
    using insertThing_with_id[of s1 h "records s u" E ?t v x] d p v x uniq
    by (simp add: s2_def)
  note e = emit_accepted[OF ne u _ g i, of replace, simplified]
  have d2: "disk s2 (folderPath h) = Some (IndexDir (remove_id x (records s u) @ [?new]))"
    using p by (simp add: s2_def)
  have r2: "records s2 u = remove_id x (records s u) @ [?new]"
    by (simp add: s2_def records_def)
  show ?thesis
  proof (cases "\<exists>y. replace = Some y \<and> y \<noteq> []")
    case False
    then show ?thesis
      using e r2 by (cases replace) auto
  next
    case True
    then obtain y where y: "replace = Some y" "y \<noteq> []" by blast
    then have ny: "y \<notin> item_id ` set (records s u)"
      using rp by (simp add: listIds_def)
    then have "y \<noteq> x" using live by (auto simp: listIds_def)
    then have "y \<notin> item_id ` set (remove_id x (records s u) @ [?new])"
      using ny ids_remove_id_subset[of x "records s u"] by auto
    then have "remove_id y (remove_id x (records s u) @ [?new]) = remove_id x (records s u) @ [?new]"
      by (rule remove_id_absent)
    then show ?thesis
      using e y d2 p by (simp add: records_def)
  qed
qed

section \<open>Upsert\<close>

text \<open>
  C2. For every universe and every id \<open>x\<close>, emitting an item with id \<open>x\<close> when
  a live record with id \<open>x\<close> already exists deletes the prior record and stores
  the new one under the same id: the records afterwards are the old ones
  without the record of \<open>x\<close>, followed by the new record, so exactly one live
  record has id \<open>x\<close>, it carries the newly emitted text (with the vector the
  provider returned for it), and the number and the set of live ids of the
  universe are unchanged. The deletion is the one \<^verbatim>\<open>insertThing\<close> makes after
  \<^verbatim>\<open>listItems\<close> and \<^verbatim>\<open>find\<close>: the library call on the resolved index, without
  it, refuses the id. Every operation preserves the invariant that no two live
  records of one universe share an id.

  The item is given as \<^verbatim>\<open>thing\<close> or as the one element of \<^verbatim>\<open>things\<close>; the state
  before is any consistent state, the provider answers the embedding call, and
  the replace id, if given, names no live record. (A list of several items
  makes several tasks write at once; see \<open>insertThings\<close>.)
\<close>

theorem emit_existing_id_replaces:
  assumes "wf_state s" and "valid_universe u"
    and "x \<in> set (listIds s u)" and "embed E b = Some v"
    and "thing = Some \<lparr>thing_text = b, thing_id = Some x\<rparr> \<and> things = None
         \<or> thing = None \<and> things = Some [\<lparr>thing_text = b, thing_id = Some x\<rparr>]"
    and "case replace of None \<Rightarrow> True | Some y \<Rightarrow> y \<notin> set (listIds s u)"
  shows "fst (emit E (Some u) thing things replace s) = success
    \<and> records (snd (emit E (Some u) thing things replace s)) u
        = remove_id x (records s u) @ [\<lparr>item_id = x, item_vector = v, item_text = b\<rparr>]
    \<and> filter (\<lambda>y. item_id y = x) (records (snd (emit E (Some u) thing things replace s)) u)
        = [\<lparr>item_id = x, item_vector = v, item_text = b\<rparr>]
    \<and> length (listIds (snd (emit E (Some u) thing things replace s)) u) = length (listIds s u)
    \<and> set (listIds (snd (emit E (Some u) thing things replace s)) u) = set (listIds s u)
    \<and> insertItem (fst (getIndex u s)) (Some x) v b (snd (getIndex u s)) = Inl ItemExists
    \<and> (\<forall>E' r s0. unique_ids s0 \<longrightarrow> unique_ids (snd (serve E' r s0)))"
proof -
  let ?new = "\<lparr>item_id = x, item_vector = v, item_text = b\<rparr>"
  let ?t = "\<lparr>thing_text = b, thing_id = Some x\<rparr>"
  let ?s' = "snd (emit E (Some u) thing things replace s)"
  have ok: "registry_ok s" and uniq: "distinct (map item_id (records s u))"
    using assms(1) by (simp_all add: wf_state_def unique_ids_def listIds_def)
  have live: "x \<in> item_id ` set (records s u)"
    using assms(3) by (simp add: listIds_def)
  have e: "emit E (Some u) thing things replace s = emit E (Some u) (Some ?t) None replace s"
    using assms(5) emit_singleton by auto
  note up = upsert_replace[OF assms(1,2,3,4,6)]
  have r: "records ?s' u = remove_id x (records s u) @ [?new]"
    using up e by simp
  have gone: "filter (\<lambda>y. item_id y = x) (remove_id x (records s u)) = []"
    using remove_id_removes[OF uniq, of x] by (auto simp: filter_empty_conv)
  obtain h s1 where g: "getIndex u s = (Handle h, s1)" and p: "folderPath h = u"
    and d: "disk s1 u = Some (IndexDir (records s u))"
    using getIndex_resolved[OF ok live_not_inherited[OF ok assms(3)]] by metis
  have "fst (emit E (Some u) thing things replace s) = success"
    using up e by simp
  moreover have "filter (\<lambda>y. item_id y = x) (records ?s' u) = [?new]"
    using r gone by simp
  moreover have "length (listIds ?s' u) = length (listIds s u)"
    using r length_remove_id[OF live] by (simp add: listIds_def)
  moreover have "set (listIds ?s' u) = set (listIds s u)"
    using r ids_remove_id[OF uniq, of x] live by (auto simp: listIds_def)
  moreover have "insertItem (fst (getIndex u s)) (Some x) v b (snd (getIndex u s)) = Inl ItemExists"
    using insertItem_live_id[of s1 h "records s u" x v b] g p d live by simp
  moreover have "\<forall>E' r s0. unique_ids s0 \<longrightarrow> unique_ids (snd (serve E' r s0))"
    by (simp add: serve_unique_ids)
  ultimately show ?thesis using r by blast
qed

text \<open>
  In the sample state, universe \<open>u\<close> holds the record \<open>x\<close> with text \<open>a\<close>;
  emitting \<open>{things: [{id: x, text: bb}], replace: z}\<close> leaves the single record
  \<open>x\<close> with text \<open>bb\<close>.
\<close>

theorem emit_existing_id_replaces_witness:
  "wf_state sample_state \<and> valid_universe ''u'' \<and> ''x'' \<in> set (listIds sample_state ''u'')
   \<and> embed sample_env ''bb'' = Some [2]
   \<and> records sample_state ''u'' = [\<lparr>item_id = ''x'', item_vector = [1], item_text = ''a''\<rparr>]
   \<and> fst (emit sample_env (Some ''u'') None (Some [\<lparr>thing_text = ''bb'', thing_id = Some ''x''\<rparr>])
            (Some ''z'') sample_state) = success
   \<and> records (snd (emit sample_env (Some ''u'') None
                      (Some [\<lparr>thing_text = ''bb'', thing_id = Some ''x''\<rparr>]) (Some ''z'')
                      sample_state)) ''u''
       = [\<lparr>item_id = ''x'', item_vector = [2], item_text = ''bb''\<rparr>]
   \<and> length (listIds (snd (emit sample_env (Some ''u'') None
                (Some [\<lparr>thing_text = ''bb'', thing_id = Some ''x''\<rparr>]) (Some ''z'')
                sample_state)) ''u'') = 1
   \<and> unique_ids (snd (serve sample_env (DeleteThing ''u'' ''x'') sample_state))"
proof -
  let ?ts = "Some [\<lparr>thing_text = ''bb'', thing_id = Some ''x''\<rparr>]"
  have h1: "wf_state sample_state" by (rule wf_sample_state)
  have h2: "valid_universe ''u''" by (simp add: valid_universe_def name_char_def)
  have h4: "''x'' \<in> set (listIds sample_state ''u'')"
    by (simp add: listIds_def records_def sample_state_def)
  have h5: "embed sample_env ''bb'' = Some [2]" by (simp add: sample_env_def)
  have h6: "None = Some \<lparr>thing_text = ''bb'', thing_id = Some ''x''\<rparr> \<and> ?ts = None
         \<or> (None :: thing option) = None \<and> ?ts = Some [\<lparr>thing_text = ''bb'', thing_id = Some ''x''\<rparr>]"
    by simp
  have h7: "case Some ''z'' of None \<Rightarrow> True | Some y \<Rightarrow> y \<notin> set (listIds sample_state ''u'')"
    by (simp add: listIds_def records_def sample_state_def)
  have u: "unique_ids sample_state" using h1 by (simp add: wf_state_def)
  have l: "length (listIds sample_state ''u'') = 1"
    and r0: "records sample_state ''u'' = [\<lparr>item_id = ''x'', item_vector = [1], item_text = ''a''\<rparr>]"
    by (simp_all add: listIds_def records_def sample_state_def)
  note t = emit_existing_id_replaces[OF h1 h2 h4 h5 h6 h7]
  have q: "unique_ids (snd (serve sample_env (DeleteThing ''u'' ''x'') sample_state))"
    using t u by blast
  show ?thesis
    using t h1 h2 h4 h5 l r0 q by (simp del: serve.simps insertThings.simps)
qed

section \<open>Replace\<close>

lemma status_simps:
  "status success = 200" "status (bad_request m) = 400" "status not_found = 404"
  "status internal_error = 500"
  by (simp_all add: success_def bad_request_def not_found_def internal_error_def)









section \<open>Eviction of the handle\<close>

lemma valid_universe_nonempty: "valid_universe u \<Longrightarrow> u \<noteq> []"
  by (simp add: valid_universe_def)

lemma deleteUniverse_valid:
  "valid_universe u \<Longrightarrow>
   deleteUniverse u s =
     (case disk s u of
        Some EmptyDir \<Rightarrow> (success, s\<lparr>universes := (universes s)(u := None), disk := (disk s)(u := None)\<rparr>)
      | _ \<Rightarrow> (not_found, s\<lparr>universes := (universes s)(u := None)\<rparr>))"
  by (auto simp: deleteUniverse_def rmdirSync_def Let_def valid_universe_nonempty
        split: option.splits directory.splits)

text \<open>
  A universe whose index exists on disk is never removed: the directory holds
  the index file, so \<^verbatim>\<open>rmdirSync\<close> throws, the answer is 404, and only the
  registry entry is dropped.
\<close>

lemma deleteUniverse_created:
  assumes "valid_universe u" and "disk s u = Some (IndexDir items)"
  shows "deleteUniverse u s = (not_found, s\<lparr>universes := (universes s)(u := None)\<rparr>)"
  using assms by (simp add: deleteUniverse_valid)

text \<open>
  C10. deleteUniverse removes the universe's cached handle from the registry
  unconditionally, before it attempts to remove the namespace directory: for
  every valid name the registry has no own entry for it afterwards. When a
  handle was cached (in a consistent state), the operation reports not-found,
  the directory is untouched, and the next resolution of the name constructs a
  new index object, distinct from the evicted one, and registers it.
\<close>

theorem deleteUniverse_evicts_handle:
  assumes "valid_universe u"
  shows "universes (snd (deleteUniverse u s)) u = None
    \<and> (wf_state s \<and> universes s u = Some h \<longrightarrow>
         fst (deleteUniverse u s) = not_found
         \<and> disk (snd (deleteUniverse u s)) = disk s
         \<and> fst (getIndex u (snd (deleteUniverse u s)))
             = Handle \<lparr>handle_id = next_handle s, folderPath = u\<rparr>
         \<and> universes (snd (getIndex u (snd (deleteUniverse u s)))) u
             = Some \<lparr>handle_id = next_handle s, folderPath = u\<rparr>
         \<and> disk (snd (getIndex u (snd (deleteUniverse u s)))) = disk s
         \<and> handle_id h \<noteq> next_handle s)"
proof -
  note d = deleteUniverse_valid[OF assms, of s]
  have evicted: "universes (snd (deleteUniverse u s)) u = None"
    unfolding d by (simp split: option.splits directory.splits)
  have "fst (deleteUniverse u s) = not_found
         \<and> disk (snd (deleteUniverse u s)) = disk s
         \<and> fst (getIndex u (snd (deleteUniverse u s)))
             = Handle \<lparr>handle_id = next_handle s, folderPath = u\<rparr>
         \<and> universes (snd (getIndex u (snd (deleteUniverse u s)))) u
             = Some \<lparr>handle_id = next_handle s, folderPath = u\<rparr>
         \<and> disk (snd (getIndex u (snd (deleteUniverse u s)))) = disk s
         \<and> handle_id h \<noteq> next_handle s"
    if wf: "wf_state s" and h: "universes s u = Some h"
  proof -
    have ok: "registry_ok s" using wf by (simp add: wf_state_def)
    have lt: "handle_id h < next_handle s" and np: "u \<notin> set prototype_names"
      and "\<exists>items. disk s u = Some (IndexDir items)"
      using ok h unfolding registry_ok_def by (blast, force, blast)
    then obtain items where i: "disk s u = Some (IndexDir items)"
      by blast
    have e: "deleteUniverse u s = (not_found, s\<lparr>universes := (universes s)(u := None)\<rparr>)"
      unfolding d using i by simp
    have l: "lookup (s\<lparr>universes := (universes s)(u := None)\<rparr>) u = None"
      using np by (simp add: lookup_def)
    show ?thesis
      unfolding e using getIndex_new[OF l] i lt by simp
  qed
  then show ?thesis
    using evicted by blast
qed

text \<open>
  In the sample state the handle of \<open>u\<close> is object 0; deleteUniverse answers
  not-found, and the next resolution yields object 1.
\<close>

theorem deleteUniverse_evicts_handle_witness:
  "valid_universe ''u'' \<and> wf_state sample_state
   \<and> universes sample_state ''u'' = Some \<lparr>handle_id = 0, folderPath = ''u''\<rparr>
   \<and> fst (deleteUniverse ''u'' sample_state) = not_found
   \<and> universes (snd (deleteUniverse ''u'' sample_state)) ''u'' = None
   \<and> fst (getIndex ''u'' (snd (deleteUniverse ''u'' sample_state)))
       = Handle \<lparr>handle_id = 1, folderPath = ''u''\<rparr>"
proof -
  have h1: "valid_universe ''u''" by (simp add: valid_universe_def name_char_def)
  have h2: "wf_state sample_state" by (rule wf_sample_state)
  have h3: "universes sample_state ''u'' = Some \<lparr>handle_id = 0, folderPath = ''u''\<rparr>"
    by (simp add: sample_state_def)
  have n: "next_handle sample_state = 1" by (simp add: sample_state_def)
  note t = deleteUniverse_evicts_handle[OF h1, of sample_state "\<lparr>handle_id = 0, folderPath = ''u''\<rparr>"]
  show ?thesis
    using t h1 h2 h3 n by simp
qed

section \<open>Deleting a thing\<close>

lemma deleteThing_resolved:
  assumes wf: "wf_state s" and u: "valid_universe u" and np: "u \<notin> set prototype_names"
    and i: "i \<noteq> []"
  shows "fst (deleteThing u i s) = success
    \<and> universes (snd (deleteThing u i s)) u \<noteq> None
    \<and> disk (snd (deleteThing u i s)) u = Some (IndexDir (remove_id i (records s u)))"
proof -
  have ok: "registry_ok s" using wf by (simp add: wf_state_def)
  obtain h s1 where g: "getIndex u s = (Handle h, s1)" and p: "folderPath h = u"
    and r: "universes s1 u = Some h" and d: "disk s1 u = Some (IndexDir (records s u))"
    using getIndex_resolved[OF ok np] by metis
  show ?thesis
    using g p r d u i by (simp add: deleteThing_def valid_universe_nonempty)
qed

lemma deleteThing_noop:
  assumes wf: "wf_state s" and u: "valid_universe u" and i: "i \<noteq> []"
    and h: "universes s u \<noteq> None" and a: "i \<notin> set (listIds s u)"
  shows "deleteThing u i s = (success, s)"
proof -
  have ok: "registry_ok s" using wf by (simp add: wf_state_def)
  obtain h' where h': "universes s u = Some h'" using h by blast
  then have p: "folderPath h' = u" and "\<exists>items. disk s u = Some (IndexDir items)"
    using ok unfolding registry_ok_def by blast+
  then obtain items where d: "disk s u = Some (IndexDir items)" by blast
  have "remove_id i items = items"
    using a d by (simp add: remove_id_absent listIds_def records_def)
  then have "(disk s)(u \<mapsto> IndexDir (remove_id i items)) = disk s"
    using d by (simp add: map_upd_triv)
  moreover have "getIndex u s = (Handle h', s)"
    using h' by (simp add: getIndex_cached lookup_def)
  ultimately show ?thesis
    using u i p d by (simp add: deleteThing_def valid_universe_nonempty)
qed

lemma deleteThing_twice:
  assumes wf: "wf_state s" and u: "valid_universe u" and np: "u \<notin> set prototype_names"
    and i: "i \<noteq> []"
  shows "fst (deleteThing u i s) = success
    \<and> i \<notin> set (listIds (snd (deleteThing u i s)) u)
    \<and> deleteThing u i (snd (deleteThing u i s)) = (success, snd (deleteThing u i s))"
proof -
  let ?s1 = "snd (deleteThing u i s)"
  note r = deleteThing_resolved[OF assms]
  have "distinct (map item_id (records s u))"
    using wf by (simp add: wf_state_def unique_ids_def listIds_def)
  then have a: "i \<notin> set (listIds ?s1 u)"
    using r remove_id_removes[of "records s u" i] by (simp add: listIds_def records_def)
  have "wf_state ?s1"
    using serve_wf[OF wf, of E "DeleteThing u i" for E] by simp
  then show ?thesis
    using deleteThing_noop[OF _ u i _ a] r a by simp
qed

text \<open>
  C8. Claimed: for every valid universe name and every id, calling deleteThing
  twice in succession succeeds both times, the second call being a no-op. For
  the names that are not inherited members of the registry object this is
  lemma \<open>deleteThing_twice\<close> above. For a name such as \<open>constructor\<close>, which
  passes the name pattern, the read of the registry yields the inherited
  member, no index is resolved, and the call on it throws: the request is
  answered 500, on a fresh server and on every later call alike.
\<close>

theorem deleteThing_fails_on_inherited_name:
  "valid_universe ''constructor''
   \<and> deleteThing ''constructor'' ''x'' initial_state = (internal_error, initial_state)
   \<and> status internal_error = 500"
  by (simp add: eval_defs internal_error_def)

section \<open>Creation of a universe\<close>

lemma resonate_rejected:
  "status (fst (resonate E uo thing reach s)) = 400 \<Longrightarrow> snd (resonate E uo thing reach s) = s"
  by (auto simp: resonate_def status_simps split: option.splits prod.splits sum.splits if_splits)

lemma deleteThing_rejected:
  "status (fst (deleteThing u i s)) = 400 \<Longrightarrow> snd (deleteThing u i s) = s"
  by (auto simp: deleteThing_def status_simps split: prod.splits sum.splits if_splits)

lemma deleteUniverse_rejected:
  "status (fst (deleteUniverse u s)) = 400 \<Longrightarrow> snd (deleteUniverse u s) = s"
  by (auto simp: deleteUniverse_def rmdirSync_def Let_def status_simps
        split: option.splits directory.splits if_splits)

lemma serve_rejected: "status (fst (serve E r s)) = 400 \<Longrightarrow> snd (serve E r s) = s"
  by (cases r) (simp_all add: emit_rejected resonate_rejected deleteThing_rejected deleteUniverse_rejected)

lemma emit_not_rejected:
  assumes "status (fst (emit E uo thing things replace s)) \<noteq> 400"
  shows "\<exists>u. uo = Some u \<and> valid_universe u
          \<and> index_step (fst (getIndex u s)) (snd (getIndex u s))
               (snd (emit E uo thing things replace s))"
proof -
  from assms obtain u where u: "uo = Some u" "u \<noteq> []" "valid_universe u"
      "\<not> (thing \<noteq> None \<and> things \<noteq> None)"
    by (auto simp: emit_def status_simps split: option.splits if_splits)
  obtain index s1 where g: "getIndex u s = (index, s1)"
    by (cases "getIndex u s")
  obtain r s2 where i: "(case things of
            Some ts \<Rightarrow> insertThings E index ts s1
          | None \<Rightarrow> (case thing of Some t \<Rightarrow> insertThing E index t s1 | None \<Rightarrow> (None, s1)))
         = (r, s2)"
    by (cases "(case things of
            Some ts \<Rightarrow> insertThings E index ts s1
          | None \<Rightarrow> (case thing of Some t \<Rightarrow> insertThing E index t s1 | None \<Rightarrow> (None, s1)))")
  have st: "index_step index s1 s2"
    using inserts_step[where index=index and ?s1.0=s1 and things=things and E=E and thing=thing] i
    by simp
  have "index_step index s1 (snd (emit E (Some u) thing things replace s))"
    unfolding emit_accepted[OF u(2,3,4) g i]
    using st by (auto split: option.splits sum.splits dest: deleteItem_step intro: index_step_trans)
  then show ?thesis
    using u g by auto
qed

lemma resonate_not_rejected:
  "status (fst (resonate E uo thing reach s)) \<noteq> 400 \<Longrightarrow>
   \<exists>u. uo = Some u \<and> valid_universe u \<and> snd (resonate E uo thing reach s) = snd (getIndex u s)"
  by (auto simp: resonate_def status_simps split: option.splits prod.splits sum.splits if_splits)

lemma deleteThing_not_rejected:
  "status (fst (deleteThing u i s)) \<noteq> 400 \<Longrightarrow>
   valid_universe u \<and> index_step (fst (getIndex u s)) (snd (getIndex u s)) (snd (deleteThing u i s))"
  by (auto simp: deleteThing_def status_simps index_step_refl split: prod.splits sum.splits if_splits
        dest: deleteItem_step)

lemma resolved_step_created:
  assumes "registry_ok s" and "u \<notin> set prototype_names"
    and "index_step (fst (getIndex u s)) (snd (getIndex u s)) s'"
  shows "(\<exists>items. disk s' u = Some (IndexDir items)) \<and> universes s' u \<noteq> None"
  using getIndex_Handle[OF assms(1,2)] index_step_created[OF assms(3), of u]
    index_step_universes[OF assms(3)]
  by auto

text \<open>
  C6, as claimed: a universe is created on the first emit or resonate against
  its name and by no other operation, so deleteThing against a never-created
  universe does not create it. The handler of deleteThing resolves the index
  through \<^verbatim>\<open>getIndex\<close>, which creates what it does not find: on a fresh server,
  deleting the thing \<open>x\<close> of the unknown universe \<open>u\<close> answers success and
  leaves the directory, the empty index and a registered handle behind.
\<close>

theorem deleteThing_creates_universe:
  "disk initial_state ''u'' = None \<and> universes initial_state ''u'' = None
   \<and> fst (deleteThing ''u'' ''x'' initial_state) = success
   \<and> disk (snd (deleteThing ''u'' ''x'' initial_state)) ''u'' = Some (IndexDir [])
   \<and> universes (snd (deleteThing ''u'' ''x'' initial_state)) ''u''
       = Some \<lparr>handle_id = 0, folderPath = ''u''\<rparr>"
  by (simp add: eval_defs)

text \<open>
  C6, amended. A universe (its index directory and its handle) exists after
  every emit, resonate or deleteThing against its name that is not rejected
  with status 400, for a name that is not an inherited member of the registry
  object, from any consistent state; a request rejected with status 400
  changes nothing; and deleteUniverse creates no directory: every directory it
  leaves was there before.
\<close>

theorem universe_created_by_resolution:
  assumes "wf_state s" and "u \<notin> set prototype_names" and "target r = Some u"
  shows "(status (fst (serve E r s)) = 400 \<longrightarrow> snd (serve E r s) = s)
    \<and> (status (fst (serve E r s)) \<noteq> 400 \<and> r \<noteq> DeleteUniverse u \<longrightarrow>
         (\<exists>items. disk (snd (serve E r s)) u = Some (IndexDir items))
         \<and> universes (snd (serve E r s)) u \<noteq> None)
    \<and> (\<forall>v. disk (snd (deleteUniverse u s)) v = None
           \<or> disk (snd (deleteUniverse u s)) v = disk s v)"
proof -
  have ok: "registry_ok s" using assms(1) by (simp add: wf_state_def)
  note c = resolved_step_created[OF ok assms(2)]
  have "(\<exists>items. disk (snd (serve E r s)) u = Some (IndexDir items))
         \<and> universes (snd (serve E r s)) u \<noteq> None"
    if n: "status (fst (serve E r s)) \<noteq> 400" and d: "r \<noteq> DeleteUniverse u"
  proof (cases r)
    case (Emit uo thing things replace)
    then show ?thesis
      using emit_not_rejected[of E uo thing things replace s] n assms(3) c by auto
  next
    case (Resonate uo thing reach)
    then show ?thesis
      using resonate_not_rejected[of E uo thing reach s] n assms(3) c[OF index_step_refl] by auto
  next
    case (DeleteThing w i)
    then show ?thesis
      using deleteThing_not_rejected[of w i s] n assms(3) c by auto
  next
    case (DeleteUniverse w)
    then show ?thesis using d assms(3) by simp
  qed
  moreover have "\<forall>v. disk (snd (deleteUniverse u s)) v = None
           \<or> disk (snd (deleteUniverse u s)) v = disk s v"
    using deleteUniverse_step[of u s] by auto
  ultimately show ?thesis
    using serve_rejected by blast
qed

text \<open>
  On a fresh server, deleteThing on \<open>u\<close> is accepted and creates \<open>u\<close>, while
  deleteThing on the invalid name \<open>a b\<close> is rejected and changes nothing.
\<close>

theorem universe_created_by_resolution_witness:
  "wf_state initial_state \<and> ''u'' \<notin> set prototype_names
   \<and> target (DeleteThing ''u'' ''x'') = Some ''u''
   \<and> status (fst (serve sample_env (DeleteThing ''u'' ''x'') initial_state)) = 200
   \<and> (\<exists>items. disk (snd (serve sample_env (DeleteThing ''u'' ''x'') initial_state)) ''u''
                  = Some (IndexDir items))
   \<and> status (fst (serve sample_env (DeleteThing ''a b'' ''x'') initial_state)) = 400
   \<and> snd (serve sample_env (DeleteThing ''a b'' ''x'') initial_state) = initial_state"
proof -
  have h1: "wf_state initial_state" by (rule wf_initial_state)
  have h2: "''u'' \<notin> set prototype_names" by (simp add: prototype_names_def)
  have h3: "target (DeleteThing ''u'' ''x'') = Some ''u''" by simp
  have a: "status (fst (serve sample_env (DeleteThing ''u'' ''x'') initial_state)) = 200"
    by (simp add: eval_defs status_simps)
  have b: "status (fst (serve sample_env (DeleteThing ''a b'' ''x'') initial_state)) = 400"
    by (simp add: eval_defs status_simps)
  have h2': "''a b'' \<notin> set prototype_names" by (simp add: prototype_names_def)
  have h3': "target (DeleteThing ''a b'' ''x'') = Some ''a b''" by simp
  note t = universe_created_by_resolution[OF h1 h2 h3, of sample_env]
  note t' = universe_created_by_resolution[OF h1 h2' h3', of sample_env]
  have c: "\<exists>items. disk (snd (serve sample_env (DeleteThing ''u'' ''x'') initial_state)) ''u''
                  = Some (IndexDir items)"
    using t a by (simp del: serve.simps)
  have d: "snd (serve sample_env (DeleteThing ''a b'' ''x'') initial_state) = initial_state"
    using t' b by (simp del: serve.simps)
  show ?thesis
    using h1 h2 h3 a b c d by (simp del: serve.simps)
qed

section \<open>Emit without items\<close>

text \<open>
  C4, as claimed: an emit call whose item list is empty (neither \<^verbatim>\<open>thing\<close> nor
  \<^verbatim>\<open>things\<close>, or an empty \<^verbatim>\<open>things\<close> array) is rejected with a validation error
  and leaves the store unchanged. The handler has no such check: on a fresh
  server both forms answer success and create the universe, and with a replace
  id the call deletes that record.
\<close>

theorem emit_without_items_accepted:
  "disk initial_state ''u'' = None
   \<and> emit sample_env (Some ''u'') None None None initial_state
       = emit sample_env (Some ''u'') None (Some []) None initial_state
   \<and> fst (emit sample_env (Some ''u'') None (Some []) None initial_state) = success
   \<and> disk (snd (emit sample_env (Some ''u'') None (Some []) None initial_state)) ''u''
       = Some (IndexDir [])
   \<and> records sample_state ''u'' = [\<lparr>item_id = ''x'', item_vector = [1], item_text = ''a''\<rparr>]
   \<and> fst (emit sample_env (Some ''u'') None (Some []) (Some ''x'') sample_state) = success
   \<and> records (snd (emit sample_env (Some ''u'') None (Some []) (Some ''x'') sample_state)) ''u'' = []"
  by (simp add: eval_defs sample_state_def)

text \<open>
  C4, amended. An emit call without items (neither \<^verbatim>\<open>thing\<close> nor \<^verbatim>\<open>things\<close>, or
  an empty \<^verbatim>\<open>things\<close> array) against a valid universe name that is not an
  inherited member of the registry object is accepted from any consistent
  state: it answers success, resolves (and if needed creates) the universe,
  inserts nothing, and deletes the record of the replace id if a non-empty one
  is given.
\<close>

theorem emit_without_items:
  assumes "wf_state s" and "valid_universe u" and "u \<notin> set prototype_names"
    and "things = None \<or> things = Some []"
  shows "fst (emit E (Some u) None things replace s) = success
    \<and> universes (snd (emit E (Some u) None things replace s)) u \<noteq> None
    \<and> disk (snd (emit E (Some u) None things replace s)) u =
        Some (IndexDir (case replace of
                          None \<Rightarrow> records s u
                        | Some x \<Rightarrow> if x = [] then records s u else remove_id x (records s u)))"
proof -
  have ok: "registry_ok s" using assms(1) by (simp add: wf_state_def)
  obtain h s1 where g: "getIndex u s = (Handle h, s1)" and p: "folderPath h = u"
    and r: "universes s1 u = Some h" and d: "disk s1 u = Some (IndexDir (records s u))"
    using getIndex_resolved[OF ok assms(3)] by metis
  have i: "(case things of
            Some ts \<Rightarrow> insertThings E (Handle h) ts s1
          | None \<Rightarrow> (case None of Some t \<Rightarrow> insertThing E (Handle h) t s1 | None \<Rightarrow> (None, s1)))
         = (None, s1)"
    using assms(4) by auto
  show ?thesis
    unfolding emit_accepted[OF valid_universe_nonempty[OF assms(2)] assms(2) _ g i, simplified]
    using p r d by (simp split: option.splits)
qed

text \<open>
  In the sample state, \<open>{things: [], replace: x}\<close> answers success and empties
  universe \<open>u\<close>.
\<close>

theorem emit_without_items_witness:
  "wf_state sample_state \<and> valid_universe ''u'' \<and> ''u'' \<notin> set prototype_names
   \<and> fst (emit sample_env (Some ''u'') None (Some []) (Some ''x'') sample_state) = success
   \<and> disk (snd (emit sample_env (Some ''u'') None (Some []) (Some ''x'') sample_state)) ''u''
       = Some (IndexDir [])"
proof -
  have h1: "wf_state sample_state" by (rule wf_sample_state)
  have h2: "valid_universe ''u''" by (simp add: valid_universe_def name_char_def)
  have h3: "''u'' \<notin> set prototype_names" by (simp add: prototype_names_def)
  have h4: "Some ([]::thing list) = None \<or> Some ([]::thing list) = Some []" by simp
  have r: "records sample_state ''u'' = [\<lparr>item_id = ''x'', item_vector = [1], item_text = ''a''\<rparr>]"
    by (simp add: sample_state_def records_def)
  note t = emit_without_items[OF h1 h2 h3 h4, of sample_env "Some ''x''"]
  show ?thesis
    using t h1 h2 h3 r by simp
qed

section \<open>Emit with a failing provider\<close>








section \<open>The answer of emit\<close>

text \<open>
  C7, as claimed: a successful emit returns the list of effective stored ids in
  the order of the items. The handler answers with \<^verbatim>\<open>{ status: 'success' }\<close> and
  nothing else: emitting \<open>{id: x, text: a}\<close> on a fresh server stores the record
  under \<open>x\<close>, and the body of the answer has the one field \<open>status\<close>.
\<close>

theorem emit_returns_no_ids:
  "emit sample_env (Some ''u'') (Some \<lparr>thing_text = ''a'', thing_id = Some ''x''\<rparr>) None None
     initial_state = (Response 200 [(''status'', JString ''success'')], sample_state)
   \<and> listIds sample_state ''u'' = [''x'']"
  by (simp add: eval_defs sample_state_def success_def)

text \<open>
  C7, amended. Every emit call is answered with one of three bodies, none of
  which carries an id: a successful call returns the status \<open>success\<close> only,
  a failed one the generic internal error, a rejected one the message of the
  validation error.
\<close>

theorem emit_answers_status_only:
  "fst (emit E universe thing things replace s) = Response 200 [(''status'', JString ''success'')]
   \<or> fst (emit E universe thing things replace s)
       = Response 500 [(''error'', JString ''Internal server error'')]
   \<or> (\<exists>msg. fst (emit E universe thing things replace s) = Response 400 [(''error'', JString msg)])"
  by (auto simp: emit_def success_def internal_error_def bad_request_def
        split: option.splits prod.splits sum.splits)

end
